theory Spec2Isabelle
  imports Complex_Main
begin

section \<open>JavaScript values shared by the three classes\<close>

text \<open>
  Times are readings of \<open>Date.now()\<close>: milliseconds since the epoch, a natural number.
  Counters start at zero and change by one, so they are integers. The capacity of a pool
  (\<open>maxRequests\<close> of the ProxyManager, \<open>maxConcurrentUses\<close> of the UserAgentManager) is
  whatever number the caller passed, since no constructor checks it: any finite number,
  also zero, negative or fractional, hence a real; a counter is compared with it as a
  number. The limits of a rate-limiter channel (\<open>maxRequests\<close>, \<open>windowMs\<close> of an
  \<open>APILimit\<close>) are taken to be integers, of any sign.
  An exception is a value of \<open>js_error\<close>; a function that can throw returns
  \<open>js_error + result\<close>.
\<close>

datatype js_error =
    Error_no_registrada string  \<comment> \<open>\<open>new Error(`API "${apiKey}" no registrada`)\<close>\<close>
  | TypeError                   \<comment> \<open>reading a property of \<open>undefined\<close>\<close>
  | InvalidResourceConfig       \<comment> \<open>named by the specification; no source line throws it\<close>

section \<open>RequestManager (src/utils/ManageRequest.ts)\<close>

text \<open>
  \<open>APILimit\<close> is the object stored per registered key. Its \<open>queue\<close> holds the
  \<open>tryExecute\<close> closures; every closure pushed on the queue of an object closes over that
  same object, so a closure is identified by the number of the \<open>request\<close> call that created
  it (which also identifies that call's \<open>callback\<close>, \<open>resolve\<close> and \<open>reject\<close>).
\<close>

record APILimit =
  maxRequests :: int
  windowMs :: int
  requests :: "nat list"
  queue :: "nat list"

text \<open>
  \<open>limits\<close> is a plain object used as a dictionary. A closure keeps a reference to the
  \<open>APILimit\<close> object it was created for, and \<open>registerAPI\<close> on a key already present
  stores a fresh object, so the objects live in a store (\<open>heap\<close>, addressed by position)
  and \<open>limits\<close> maps a key to an address. Addresses handed to \<open>tryExecute\<close> and
  \<open>afterCallback\<close> are addresses of closures, hence always allocated.

  \<open>this.limits[apiKey]\<close> is a JavaScript property read: a key that is not an own property
  is looked up on the prototype chain. \<open>limits_proto\<close> is the object installed as prototype
  by an assignment to the key \<open>__proto__\<close> (\<open>None\<close>: the prototype is still
  \<open>Object.prototype\<close>).
\<close>

record RequestManager =
  limits :: "string \<rightharpoonup> nat"
  limits_proto :: "nat option"
  heap :: "APILimit list"

definition RequestManager_new :: RequestManager where
  "RequestManager_new = \<lparr>limits = Map.empty, limits_proto = None, heap = []\<rparr>"

definition registerAPI :: "string \<Rightarrow> int \<Rightarrow> int \<Rightarrow> RequestManager \<Rightarrow> RequestManager" where
  "registerAPI apiKey maxReq window rm =
     (let a = length (heap rm);
          obj = \<lparr>maxRequests = maxReq, windowMs = window, requests = [], queue = []\<rparr>
      in if apiKey = ''__proto__''
         then rm\<lparr>limits_proto := Some a, heap := heap rm @ [obj]\<rparr>
         else rm\<lparr>limits := (limits rm)(apiKey \<mapsto> a), heap := heap rm @ [obj]\<rparr>)"

text \<open>The own property names of \<open>Object.prototype\<close>; each holds a function or an object.\<close>

definition Object_prototype_names :: "string list" where
  "Object_prototype_names =
     [''constructor'', ''__defineGetter__'', ''__defineSetter__'', ''hasOwnProperty'',
      ''__lookupGetter__'', ''__lookupSetter__'', ''isPrototypeOf'', ''propertyIsEnumerable'',
      ''toString'', ''valueOf'', ''__proto__'', ''toLocaleString'']"

text \<open>
  What \<open>this.limits[apiKey]\<close> evaluates to: \<open>Falsy\<close> (\<open>undefined\<close>, or an inherited
  number \<open>0\<close>), a registered \<open>APILimit\<close> object, or \<open>Truthy_other\<close>: an inherited value
  that is truthy and has no \<open>queue\<close> property (a function, an array, a non-zero number,
  \<open>Object.prototype\<close> itself).
\<close>

datatype limits_value = Falsy | Limit nat | Truthy_other

definition limits_get :: "RequestManager \<Rightarrow> string \<Rightarrow> limits_value" where
  "limits_get rm apiKey =
     (if apiKey = ''__proto__''
      then (case limits_proto rm of Some a \<Rightarrow> Limit a | None \<Rightarrow> Truthy_other)
      else case limits rm apiKey of
        Some a \<Rightarrow> Limit a
      | None \<Rightarrow>
         (case limits_proto rm of
            Some a \<Rightarrow>
              if apiKey = ''maxRequests''
              then (if maxRequests (heap rm ! a) = 0 then Falsy else Truthy_other)
              else if apiKey = ''windowMs''
              then (if windowMs (heap rm ! a) = 0 then Falsy else Truthy_other)
              else if apiKey = ''requests'' \<or> apiKey = ''queue'' then Truthy_other
              else if apiKey \<in> set Object_prototype_names then Truthy_other else Falsy
          | None \<Rightarrow> if apiKey \<in> set Object_prototype_names then Truthy_other else Falsy))"

text \<open>
  What a step of the rate limiter does to the outside: it calls a request's callback, it
  settles a request's promise, it warns, it arms a timer that will call \<open>tryExecute\<close>.
  \<open>waitTime\<close> is \<open>None\<close> when the subtraction reads \<open>requests[0]\<close> of an empty array
  (\<open>NaN\<close>).
\<close>

datatype outcome = Fulfilled nat | Rejected nat

datatype rm_effect =
    Invoke nat nat                    \<comment> \<open>\<open>callback()\<close> of request \<open>req\<close> called at time \<open>now\<close>\<close>
  | Resolve nat nat                   \<comment> \<open>\<open>resolve(result)\<close> of request \<open>req\<close>\<close>
  | Reject nat nat                    \<comment> \<open>\<open>reject(err)\<close> of request \<open>req\<close>\<close>
  | Warn "int option"                 \<comment> \<open>\<open>console.warn\<close> with the wait time\<close>
  | SetTimeout nat nat "int option"   \<comment> \<open>\<open>setTimeout(() => tryExecute(), waitTime)\<close>\<close>

text \<open>
  \<open>tryExecute\<close> up to its \<open>await\<close> (first branch) or to its end (second branch), for
  the closure of request \<open>req\<close> on the object at address \<open>a\<close>.
\<close>

definition tryExecute :: "nat \<Rightarrow> nat \<Rightarrow> nat \<Rightarrow> RequestManager \<Rightarrow> rm_effect list \<times> RequestManager" where
  "tryExecute a req now rm =
     (let limit = heap rm ! a;
          kept = filter (\<lambda>ts. int now - int ts < windowMs limit) (requests limit)
      in if int (length kept) < maxRequests limit
         then ([Invoke req now],
               rm\<lparr>heap := (heap rm)[a := limit\<lparr>requests := kept @ [now]\<rparr>]\<rparr>)
         else (let waitTime = (case kept of
                                 [] \<Rightarrow> None
                               | ts # _ \<Rightarrow> Some (windowMs limit - (int now - int ts)))
               in ([Warn waitTime, SetTimeout a req waitTime],
                   rm\<lparr>heap := (heap rm)[a := limit\<lparr>requests := kept\<rparr>]\<rparr>)))"

text \<open>
  The rest of the first branch of \<open>tryExecute\<close>, run when the awaited callback has
  settled: settle the request's promise, then shift the head of the queue and call it.
  \<open>now\<close> is the clock reading of the closure called by \<open>next()\<close>.
\<close>

definition afterCallback :: "nat \<Rightarrow> nat \<Rightarrow> outcome \<Rightarrow> nat \<Rightarrow> RequestManager \<Rightarrow> rm_effect list \<times> RequestManager" where
  "afterCallback a req out now rm =
     (let settle = (case out of Fulfilled v \<Rightarrow> Resolve req v | Rejected e \<Rightarrow> Reject req e);
          limit = heap rm ! a
      in case queue limit of
           [] \<Rightarrow> ([settle], rm)
         | next # rest \<Rightarrow>
             (let (effs, rm') = tryExecute a next now
                                  (rm\<lparr>heap := (heap rm)[a := limit\<lparr>queue := rest\<rparr>]\<rparr>)
              in (settle # effs, rm')))"

text \<open>
  \<open>request\<close> up to the point where it returns its promise. \<open>Inl\<close>: the promise is
  rejected with that error before anything is queued (the \<open>throw\<close> of line 52, or the
  \<open>TypeError\<close> of \<open>limit.queue.push\<close> inside the promise executor when \<open>limit\<close> has no
  \<open>queue\<close>).
\<close>

definition request :: "string \<Rightarrow> nat \<Rightarrow> nat \<Rightarrow> RequestManager \<Rightarrow> js_error + rm_effect list \<times> RequestManager" where
  "request apiKey req now rm =
     (case limits_get rm apiKey of
        Falsy \<Rightarrow> Inl (Error_no_registrada apiKey)
      | Truthy_other \<Rightarrow> Inl TypeError
      | Limit a \<Rightarrow>
          (let limit = heap rm ! a;
               rm1 = rm\<lparr>heap := (heap rm)[a := limit\<lparr>queue := queue limit @ [req]\<rparr>]\<rparr>
           in if length (queue limit @ [req]) = 1
              then Inr (tryExecute a req now rm1)
              else Inr ([], rm1)))"

subsection \<open>The event loop around the rate limiter\<close>

text \<open>
  A schedule is a list of things the JavaScript runtime does with a manager: a caller
  calls \<open>request\<close>; a callback that was invoked settles and the closure awaiting it
  continues; a timer that was armed falls due and calls \<open>tryExecute\<close>. The runtime state
  keeps the callbacks in flight and the armed timers, so that \<open>deliver\<close> refuses
  (\<open>None\<close>) an event the runtime could not produce; the clock never runs backwards and a
  timer never fires before its delay has passed (a delay below 1, or \<open>NaN\<close>, is 1).
\<close>

datatype rm_event =
    Request_called string nat nat       \<comment> \<open>key, request number, time\<close>
  | Callback_settled nat nat outcome nat  \<comment> \<open>address, request number, outcome, time\<close>
  | Timer_fired nat nat nat             \<comment> \<open>address, request number, time\<close>

record js_runtime =
  manager :: RequestManager
  clock :: nat
  in_flight :: "(nat \<times> nat) list"
  timers :: "(nat \<times> nat \<times> nat) list"
  thrown :: "(nat \<times> js_error) list"
  effects :: "rm_effect list"

definition boot :: "RequestManager \<Rightarrow> js_runtime" where
  "boot rm = \<lparr>manager = rm, clock = 0, in_flight = [], timers = [], thrown = [], effects = []\<rparr>"

fun arm :: "nat \<Rightarrow> rm_effect \<Rightarrow> js_runtime \<Rightarrow> js_runtime" where
  "arm a (Invoke req now) w = w\<lparr>in_flight := in_flight w @ [(a, req)]\<rparr>"
| "arm a (SetTimeout a' req waitTime) w =
     w\<lparr>timers := timers w @
        [(clock w + (case waitTime of None \<Rightarrow> 1 | Some d \<Rightarrow> if d < 1 then 1 else nat d), a', req)]\<rparr>"
| "arm a e w = w"

definition absorb :: "nat \<Rightarrow> rm_effect list \<times> RequestManager \<Rightarrow> js_runtime \<Rightarrow> js_runtime" where
  "absorb a r w = fold (arm a) (fst r) (w\<lparr>manager := snd r, effects := effects w @ fst r\<rparr>)"

definition deliver :: "rm_event \<Rightarrow> js_runtime \<Rightarrow> js_runtime option" where
  "deliver ev w =
     (case ev of
        Request_called apiKey req now \<Rightarrow>
          if now < clock w then None
          else (case request apiKey req now (manager w) of
                  Inl err \<Rightarrow> Some (w\<lparr>clock := now, thrown := thrown w @ [(req, err)]\<rparr>)
                | Inr r \<Rightarrow>
                    (case limits_get (manager w) apiKey of
                       Limit a \<Rightarrow> Some (absorb a r (w\<lparr>clock := now\<rparr>))
                     | _ \<Rightarrow> None))
      | Callback_settled a req out now \<Rightarrow>
          if now < clock w \<or> (a, req) \<notin> set (in_flight w) then None
          else Some (absorb a (afterCallback a req out now (manager w))
                       (w\<lparr>clock := now, in_flight := remove1 (a, req) (in_flight w)\<rparr>))
      | Timer_fired a req now \<Rightarrow>
          (case find (\<lambda>t. snd t = (a, req) \<and> fst t \<le> now) (timers w) of
             None \<Rightarrow> None
           | Some t \<Rightarrow>
               if now < clock w then None
               else Some (absorb a (tryExecute a req now (manager w))
                            (w\<lparr>clock := now, timers := remove1 t (timers w)\<rparr>))))"

fun schedule :: "rm_event list \<Rightarrow> js_runtime \<Rightarrow> js_runtime option" where
  "schedule [] w = Some w"
| "schedule (ev # evs) w = (case deliver ev w of None \<Rightarrow> None | Some w' \<Rightarrow> schedule evs w')"

section \<open>The two pools\<close>

text \<open>
  What a pool operation does to the outside besides changing the pool: console output,
  the \<open>released\<close> event of the \<open>EventEmitter\<close>, the timer of the timeout guard, the
  resolution of a suspended caller's promise.
\<close>

datatype pool_effect =
    Console_log                 \<comment> \<open>\<open>console.log\<close>\<close>
  | Console_warn                \<comment> \<open>\<open>console.warn\<close>\<close>
  | Emit_released               \<comment> \<open>\<open>this.emit('released')\<close>\<close>
  | Once_released               \<comment> \<open>\<open>this.once('released', res)\<close>: the caller waits for the event\<close>
  | SetTimeout_release nat nat  \<comment> \<open>\<open>setTimeout(() => this.release(idx), 11000)\<close>: index, delay\<close>
  | Waiter_resolved nat string  \<comment> \<open>\<open>waiter(userAgent)\<close>: waiting caller, user-agent\<close>

subsection \<open>UserAgentManager (src/unnamed/part\_001)\<close>

text \<open>\<open>waiters\<close> holds the \<open>resolve\<close> functions of suspended callers, each identified by a number.\<close>

record UserAgentManager =
  userAgents :: "string list"
  maxConcurrentUses :: real
  usageCount :: "string \<rightharpoonup> int"
  waiters :: "nat list"

definition UserAgentManager_new :: "string list \<Rightarrow> real \<Rightarrow> UserAgentManager" where
  "UserAgentManager_new uas maxUses =
     \<lparr>userAgents = uas, maxConcurrentUses = maxUses,
      usageCount = fold (\<lambda>ua m. m(ua \<mapsto> 0)) uas Map.empty, waiters = []\<rparr>"

text \<open>\<open>this.usageCount.get(ua) ?? 0\<close>\<close>

definition usage :: "UserAgentManager \<Rightarrow> string \<Rightarrow> int" where
  "usage m ua = (case usageCount m ua of None \<Rightarrow> 0 | Some c \<Rightarrow> c)"

definition incrementUsage :: "string \<Rightarrow> UserAgentManager \<Rightarrow> UserAgentManager" where
  "incrementUsage ua m = m\<lparr>usageCount := (usageCount m)(ua \<mapsto> usage m ua + 1)\<rparr>"

text \<open>
  \<open>shuffled\<close> is the order in which \<open>sort(() => Math.random() - 0.5)\<close> left the copy of
  \<open>userAgents\<close>: the scan is the same for any order, and the order is the only thing the
  random numbers decide.
\<close>

definition getAvailableUserAgent :: "string list \<Rightarrow> UserAgentManager \<Rightarrow> string option" where
  "getAvailableUserAgent shuffled m = find (\<lambda>ua. of_int (usage m ua) < maxConcurrentUses m) shuffled"

text \<open>
  \<open>acquire\<close> for the caller number \<open>caller\<close>: \<open>Some ua\<close> when the promise resolves at
  once, \<open>None\<close> when the caller's \<open>resolve\<close> was pushed on \<open>waiters\<close>. The test
  \<open>if (availableUA)\<close> is a truthiness test: the empty string is falsy.
\<close>

definition UserAgentManager_acquire ::
  "string list \<Rightarrow> nat \<Rightarrow> UserAgentManager \<Rightarrow> string option \<times> pool_effect list \<times> UserAgentManager" where
  "UserAgentManager_acquire shuffled caller m =
     (case getAvailableUserAgent shuffled m of
        Some availableUA \<Rightarrow>
          if availableUA \<noteq> []
          then (Some availableUA, [Console_log], incrementUsage availableUA m)
          else (None, [Console_log], m\<lparr>waiters := waiters m @ [caller]\<rparr>)
      | None \<Rightarrow> (None, [], m\<lparr>waiters := waiters m @ [caller]\<rparr>))"

definition UserAgentManager_release :: "string \<Rightarrow> UserAgentManager \<Rightarrow> pool_effect list \<times> UserAgentManager" where
  "UserAgentManager_release userAgent m =
     (let cur = usage m userAgent
      in if cur > 0
         then (let m1 = m\<lparr>usageCount := (usageCount m)(userAgent \<mapsto> cur - 1)\<rparr>
               in case waiters m1 of
                    [] \<Rightarrow> ([], m1)
                  | waiter # rest \<Rightarrow>
                      ([Waiter_resolved waiter userAgent],
                       incrementUsage userAgent (m1\<lparr>waiters := rest\<rparr>)))
         else ([Console_warn], m))"

datatype ua_op = UA_acquire "string list" nat | UA_release string

fun ua_step :: "ua_op \<Rightarrow> UserAgentManager \<Rightarrow> UserAgentManager" where
  "ua_step (UA_acquire shuffled caller) m = snd (snd (UserAgentManager_acquire shuffled caller m))"
| "ua_step (UA_release userAgent) m = snd (UserAgentManager_release userAgent m)"

definition ua_run :: "ua_op list \<Rightarrow> UserAgentManager \<Rightarrow> UserAgentManager" where
  "ua_run ops m = fold ua_step ops m"

text \<open>
  The largest count that the test \<open>count < capacity\<close> lets a counter reach: the capacity
  rounded up, and zero for a negative capacity.
\<close>

definition whole_units :: "real \<Rightarrow> int" where
  "whole_units capacity = max 0 \<lceil>capacity\<rceil>"

definition ua_within_whole_units :: "UserAgentManager \<Rightarrow> bool" where
  "ua_within_whole_units m =
     list_all (\<lambda>ua. 0 \<le> usage m ua \<and> usage m ua \<le> whole_units (maxConcurrentUses m)) (userAgents m)"

definition ua_within_capacity :: "UserAgentManager \<Rightarrow> bool" where
  "ua_within_capacity m =
     list_all (\<lambda>ua. 0 \<le> usage m ua \<and> of_int (usage m ua) \<le> maxConcurrentUses m) (userAgents m)"

subsection \<open>ProxyManager (src/unnamed/part\_003)\<close>

text \<open>
  \<open>portIndex\<close> is \<open>None\<close> when it is \<open>NaN\<close> (the remainder by the length of an empty
  port list); \<open>port\<close> is \<open>None\<close> when it is \<open>undefined\<close> (a read outside \<open>ports\<close>).
\<close>

record ProxyConfig =
  host :: string
  ports :: "int list"
  username :: string
  password :: string

record ProxyState = ProxyConfig +
  current :: int
  portIndex :: "nat option"
  port :: "int option"

record AcquiredProxy =
  proxy :: ProxyState
  index :: nat

record ProxyManager =
  proxies :: "ProxyState list"
  maxRequests :: real
  lockedIndexes :: "nat set"
  failureCount :: "nat \<rightharpoonup> nat"
  cooldownUntil :: "nat \<rightharpoonup> nat"

text \<open>\<open>ports[i]\<close> for a number \<open>i\<close> that may be \<open>NaN\<close>, and \<open>a % n\<close> on such numbers.\<close>

definition js_at :: "int list \<Rightarrow> nat option \<Rightarrow> int option" where
  "js_at ps i = (case i of None \<Rightarrow> None | Some k \<Rightarrow> if k < length ps then Some (ps ! k) else None)"

definition js_rem :: "nat option \<Rightarrow> nat \<Rightarrow> nat option" where
  "js_rem a n = (case a of None \<Rightarrow> None | Some k \<Rightarrow> if n = 0 then None else Some (k mod n))"

text \<open>
  The constructor has no \<open>throw\<close> and \<open>p.ports[0]\<close> of an empty array is \<open>undefined\<close>,
  not an exception: every call returns a manager.
\<close>

definition ProxyManager_new :: "ProxyConfig list \<Rightarrow> real \<Rightarrow> js_error + ProxyManager" where
  "ProxyManager_new configs maxReq =
     Inr \<lparr>proxies = map (\<lambda>p. \<lparr>host = host p, ports = ports p, username = username p,
                                password = password p, current = 0, portIndex = Some 0,
                                port = js_at (ports p) (Some 0)\<rparr>) configs,
          maxRequests = maxReq, lockedIndexes = {}, failureCount = Map.empty,
          cooldownUntil = Map.empty\<rparr>"

definition isOnCooldown :: "ProxyManager \<Rightarrow> nat \<Rightarrow> nat \<Rightarrow> bool" where
  "isOnCooldown pm now i =
     (case cooldownUntil pm i of None \<Rightarrow> False | Some until \<Rightarrow> until \<noteq> 0 \<and> now < until)"

text \<open>\<open>Array.prototype.findIndex\<close> with the element and its position; \<open>None\<close> is \<open>-1\<close>.\<close>

fun findIndex_from :: "nat \<Rightarrow> ('a \<Rightarrow> nat \<Rightarrow> bool) \<Rightarrow> 'a list \<Rightarrow> nat option" where
  "findIndex_from i P [] = None"
| "findIndex_from i P (x # xs) = (if P x i then Some i else findIndex_from (Suc i) P xs)"

definition findIndex :: "('a \<Rightarrow> nat \<Rightarrow> bool) \<Rightarrow> 'a list \<Rightarrow> nat option" where
  "findIndex P xs = findIndex_from 0 P xs"

definition eligible :: "ProxyManager \<Rightarrow> nat list \<Rightarrow> nat \<Rightarrow> ProxyState \<Rightarrow> nat \<Rightarrow> bool" where
  "eligible pm excludeIndexes now p i =
     (of_int (current p) < maxRequests pm \<and> i \<notin> set excludeIndexes \<and> i \<notin> lockedIndexes pm
      \<and> \<not> isOnCooldown pm now i)"

text \<open>
  One pass through the body of the \<open>while (true)\<close> of \<open>acquire\<close>, which runs without
  interruption: either the scan finds an index and \<open>acquire\<close> returns (\<open>Some\<close>), or the
  caller registers for the next \<open>released\<close> event (\<open>None\<close>) and the body runs again, on
  the pool as it is then, when that event is emitted. \<open>now\<close> is the reading of
  \<open>Date.now()\<close> during the scan. The returned \<open>proxy\<close> is the state object itself.
\<close>

definition acquire ::
  "nat list \<Rightarrow> nat \<Rightarrow> ProxyManager \<Rightarrow> AcquiredProxy option \<times> pool_effect list \<times> ProxyManager" where
  "acquire excludeIndexes now pm =
     (case findIndex (eligible pm excludeIndexes now) (proxies pm) of
        Some idx \<Rightarrow>
          (let state = proxies pm ! idx;
               cursor = js_rem (map_option Suc (portIndex state)) (length (ports state));
               state' = state\<lparr>current := current state + 1, portIndex := cursor,
                               port := js_at (ports state) cursor\<rparr>
           in (Some \<lparr>proxy = state', index = idx\<rparr>, [SetTimeout_release idx 11000],
               pm\<lparr>lockedIndexes := insert idx (lockedIndexes pm),
                  proxies := (proxies pm)[idx := state']\<rparr>))
      | None \<Rightarrow> (None, [Once_released], pm))"

text \<open>\<open>this.proxies[index]\<close> outside the array is \<open>undefined\<close>, and \<open>state.current\<close> throws.\<close>

definition release :: "nat \<Rightarrow> ProxyManager \<Rightarrow> js_error + pool_effect list \<times> ProxyManager" where
  "release i pm =
     (if i < length (proxies pm)
      then (let state = proxies pm ! i;
                state' = (if current state > 0 then state\<lparr>current := current state - 1\<rparr>
                          else state)
            in Inr ([Emit_released],
                    pm\<lparr>proxies := (proxies pm)[i := state'],
                       lockedIndexes := lockedIndexes pm - {i}\<rparr>))
      else Inl TypeError)"

definition reportFailure :: "nat \<Rightarrow> nat \<Rightarrow> ProxyManager \<Rightarrow> pool_effect list \<times> ProxyManager" where
  "reportFailure i now pm =
     (let count = (case failureCount pm i of None \<Rightarrow> 0 | Some c \<Rightarrow> c) + 1;
          pm1 = pm\<lparr>failureCount := (failureCount pm)(i \<mapsto> count)\<rparr>
      in if count \<ge> 3
         then ([Console_warn], pm1\<lparr>cooldownUntil := (cooldownUntil pm1)(i \<mapsto> now + 10000)\<rparr>)
         else ([], pm1))"

definition resetFailures :: "nat \<Rightarrow> ProxyManager \<Rightarrow> ProxyManager" where
  "resetFailures i pm = pm\<lparr>failureCount := (failureCount pm)(i \<mapsto> 0)\<rparr>"

text \<open>
  A history of a pool: the calls made on it, in the order in which they run. A call of
  \<open>release\<close> is the caller's or the timeout guard's; a pass of \<open>acquire\<close> is a first
  attempt or the re-scan of a caller woken by \<open>released\<close>. A call that throws leaves the
  pool as it was.
\<close>

datatype pm_op =
    Acquire "nat list" nat
  | Release nat
  | ReportFailure nat nat
  | ResetFailures nat

fun pm_step :: "pm_op \<Rightarrow> ProxyManager \<Rightarrow> ProxyManager" where
  "pm_step (Acquire excludeIndexes now) pm = snd (snd (acquire excludeIndexes now pm))"
| "pm_step (Release i) pm = (case release i pm of Inl err \<Rightarrow> pm | Inr r \<Rightarrow> snd r)"
| "pm_step (ReportFailure i now) pm = snd (reportFailure i now pm)"
| "pm_step (ResetFailures i) pm = resetFailures i pm"

definition pm_run :: "pm_op list \<Rightarrow> ProxyManager \<Rightarrow> ProxyManager" where
  "pm_run ops pm = fold pm_step ops pm"

text \<open>What the calls of a history return to the callers of \<open>acquire\<close>, in order.\<close>

fun granted :: "pm_op \<Rightarrow> ProxyManager \<Rightarrow> AcquiredProxy list" where
  "granted (Acquire excludeIndexes now) pm =
     (case fst (acquire excludeIndexes now pm) of None \<Rightarrow> [] | Some g \<Rightarrow> [g])"
| "granted _ pm = []"

fun grants :: "pm_op list \<Rightarrow> ProxyManager \<Rightarrow> AcquiredProxy list" where
  "grants [] pm = []"
| "grants (op # ops) pm = granted op pm @ grants ops (pm_step op pm)"

definition pm_within_whole_units :: "ProxyManager \<Rightarrow> bool" where
  "pm_within_whole_units pm =
     list_all (\<lambda>p. 0 \<le> current p \<and> current p \<le> whole_units (maxRequests pm)) (proxies pm)"

definition pm_within_capacity :: "ProxyManager \<Rightarrow> bool" where
  "pm_within_capacity pm =
     list_all (\<lambda>p. 0 \<le> current p \<and> of_int (current p) \<le> maxRequests pm) (proxies pm)"

subsection \<open>Invariants and histories of the ProxyManager\<close>

text \<open>Every usage counter lies between zero and the capacity rounded up.\<close>

definition counters_ok :: "ProxyManager \<Rightarrow> bool" where
  "counters_ok pm \<longleftrightarrow>
     (\<forall>i < length (proxies pm).
        0 \<le> current (proxies pm ! i) \<and> current (proxies pm ! i) \<le> whole_units (maxRequests pm))"

text \<open>No counter is negative, and a locked index is the index of a proxy in use.\<close>

definition locked_in_use :: "ProxyManager \<Rightarrow> bool" where
  "locked_in_use pm \<longleftrightarrow>
     (\<forall>i < length (proxies pm).
        0 \<le> current (proxies pm ! i) \<and> (i \<in> lockedIndexes pm \<longrightarrow> 0 < current (proxies pm ! i)))
     \<and> (\<forall>i \<in> lockedIndexes pm. i < length (proxies pm))"

definition ua_counters_ok :: "UserAgentManager \<Rightarrow> bool" where
  "ua_counters_ok m \<longleftrightarrow>
     (\<forall>ua. 0 \<le> usage m ua \<and> usage m ua \<le> whole_units (maxConcurrentUses m))"

text \<open>The calls that read or write the failure counter of index \<open>i\<close>.\<close>

fun about_failures :: "nat \<Rightarrow> pm_op \<Rightarrow> bool" where
  "about_failures i (ReportFailure j now) = (j = i)"
| "about_failures i (ResetFailures j) = (j = i)"
| "about_failures i _ = False"

text \<open>Proxy \<open>i\<close> has the port list \<open>ps\<close> and its cursor stands at \<open>c\<close>.\<close>

definition cursor_at :: "ProxyManager \<Rightarrow> nat \<Rightarrow> int list \<Rightarrow> nat \<Rightarrow> bool" where
  "cursor_at pm i ps c \<longleftrightarrow>
     i < length (proxies pm) \<and> ports (proxies pm ! i) = ps \<and> portIndex (proxies pm ! i) = Some c"

subsection \<open>Example pools\<close>

definition example_config :: ProxyConfig where
  "example_config =
     \<lparr>host = ''10.0.0.1'', ports = [8000, 8001, 8002], username = ''user'', password = ''pw''\<rparr>"

definition example_state :: ProxyState where
  "example_state =
     \<lparr>host = ''10.0.0.1'', ports = [8000, 8001, 8002], username = ''user'', password = ''pw'',
      current = 0, portIndex = Some 0, port = Some 8000\<rparr>"

text \<open>The pools that the constructor builds from one and from two copies of \<open>example_config\<close>.\<close>

definition one_proxy :: "real \<Rightarrow> ProxyManager" where
  "one_proxy maxReq =
     \<lparr>proxies = [example_state], maxRequests = maxReq, lockedIndexes = {},
      failureCount = Map.empty, cooldownUntil = Map.empty\<rparr>"

definition two_proxies :: "real \<Rightarrow> ProxyManager" where
  "two_proxies maxReq =
     \<lparr>proxies = [example_state, example_state], maxRequests = maxReq, lockedIndexes = {},
      failureCount = Map.empty, cooldownUntil = Map.empty\<rparr>"

definition portless_config :: ProxyConfig where
  "portless_config = \<lparr>host = ''10.0.0.2'', ports = [], username = ''user'', password = ''pw''\<rparr>"

definition cooled_pool :: ProxyManager where
  "cooled_pool = pm_run [ReportFailure 0 0, ReportFailure 0 0, ReportFailure 0 0] (one_proxy 2)"

definition first_grant :: AcquiredProxy where
  "first_grant =
     \<lparr>proxy = example_state\<lparr>current := 1, portIndex := Some 1, port := Some 8001\<rparr>, index = 0\<rparr>"

definition failing_history :: "pm_op list" where
  "failing_history =
     ReportFailure 0 100 # [Acquire [] 150] @ ReportFailure 0 200 # [Release 0]
       @ ReportFailure 0 300 # [ReportFailure 1 350]"

definition busy_history :: "pm_op list" where
  "busy_history = [Acquire [] 1, Acquire [] 2, ReportFailure 0 3, Release 1, Acquire [] 4]"

definition rotating_history :: "pm_op list" where
  "rotating_history =
     [Acquire [] 1, Release 0, Acquire [1] 2, Release 0, ReportFailure 0 3,
      Acquire [] 4, Release 0, Acquire [] 5]"

definition idle_history :: "pm_op list" where
  "idle_history = [Acquire [] 1, Release 0]"

text \<open>
  Caller A is granted proxy 0 at time 0 and releases it at time 1; caller B is granted it
  at time 2; at time 11000 the timeout guard armed for A calls \<open>release(0)\<close>; at time 11001
  a third pass of \<open>acquire\<close> runs.
\<close>

definition stale_guard_history :: "pm_op list" where
  "stale_guard_history = [Acquire [] 0, Release 0, Acquire [] 2, Release 0, Acquire [] 11001]"

subsection \<open>Example schedules of the rate limiter\<close>

definition three_at_zero :: "rm_event list" where
  "three_at_zero =
     [Request_called ''x'' 1 0, Request_called ''x'' 2 0, Request_called ''x'' 3 0]"

definition three_at_zero_continued :: "rm_event list" where
  "three_at_zero_continued =
     three_at_zero @
     [Callback_settled 0 1 (Fulfilled 10) 0, Callback_settled 0 1 (Fulfilled 10) 0,
      Timer_fired 0 2 1000, Callback_settled 0 2 (Fulfilled 20) 1000]"

definition one_rejected :: "rm_event list" where
  "one_rejected =
     [Request_called ''x'' 1 0, Callback_settled 0 1 (Rejected 7) 5,
      Callback_settled 0 1 (Rejected 7) 9]"

section \<open>Facts about the ProxyManager\<close>

subsection \<open>The scan of \<open>acquire\<close>\<close>

lemma findIndex_from_Some:
  "findIndex_from i P xs = Some j \<Longrightarrow> i \<le> j \<and> j < i + length xs \<and> P (xs ! (j - i)) j"
proof (induction xs arbitrary: i)
  case Nil
  then show ?case by simp
next
  case (Cons x xs)
  show ?case
  proof (cases "P x i")
    case True
    with Cons.prems show ?thesis by simp
  next
    case False
    with Cons.prems have "findIndex_from (Suc i) P xs = Some j" by simp
    from Cons.IH[OF this] show ?thesis by (auto simp: nth_Cons')
  qed
qed

lemma findIndex_Some:
  "findIndex P xs = Some j \<Longrightarrow> j < length xs \<and> P (xs ! j) j"
  using findIndex_from_Some[of 0 P xs j] by (simp add: findIndex_def)

lemma acquire_Some:
  assumes "fst (acquire excl now pm) = Some g"
  shows "findIndex (eligible pm excl now) (proxies pm) = Some (index g)"
  using assms by (auto simp: acquire_def Let_def split: option.splits)

lemma acquire_eligible:
  assumes "fst (acquire excl now pm) = Some g"
  shows "index g < length (proxies pm) \<and> eligible pm excl now (proxies pm ! index g) (index g)"
  using findIndex_Some[OF acquire_Some[OF assms]] .

lemma acquire_None:
  "fst (acquire excl now pm) = None \<Longrightarrow> snd (snd (acquire excl now pm)) = pm"
  by (auto simp: acquire_def Let_def split: option.splits)

lemma acquire_state:
  assumes "fst (acquire excl now pm) = Some g"
  shows "snd (snd (acquire excl now pm)) =
           pm\<lparr>lockedIndexes := insert (index g) (lockedIndexes pm),
              proxies := (proxies pm)[index g := proxy g]\<rparr>"
    and "proxy g = (proxies pm ! index g)
            \<lparr>current := current (proxies pm ! index g) + 1,
             portIndex := js_rem (map_option Suc (portIndex (proxies pm ! index g)))
                                 (length (ports (proxies pm ! index g))),
             port := js_at (ports (proxies pm ! index g))
                      (js_rem (map_option Suc (portIndex (proxies pm ! index g)))
                                 (length (ports (proxies pm ! index g))))\<rparr>"
  using assms by (auto simp: acquire_def Let_def split: option.splits)

subsection \<open>Shape of the pool along a history\<close>

lemma acquire_length [simp]: "length (proxies (snd (snd (acquire excl now pm)))) = length (proxies pm)"
  by (auto simp: acquire_def Let_def split: option.splits)

lemma acquire_maxRequests [simp]: "maxRequests (snd (snd (acquire excl now pm))) = maxRequests pm"
  by (auto simp: acquire_def Let_def split: option.splits)

lemma pm_step_length [simp]: "length (proxies (pm_step op pm)) = length (proxies pm)"
  by (cases op) (auto simp: release_def reportFailure_def resetFailures_def Let_def)

lemma pm_step_maxRequests [simp]: "maxRequests (pm_step op pm) = maxRequests pm"
  by (cases op) (auto simp: release_def reportFailure_def resetFailures_def Let_def)

lemma pm_run_Nil [simp]: "pm_run [] pm = pm"
  by (simp add: pm_run_def)

lemma pm_run_Cons [simp]: "pm_run (op # ops) pm = pm_run ops (pm_step op pm)"
  by (simp add: pm_run_def)

lemma pm_run_append [simp]: "pm_run (ops @ ops') pm = pm_run ops' (pm_run ops pm)"
  by (simp add: pm_run_def)

lemma next_unit_fits: "of_int k < capacity \<Longrightarrow> 0 \<le> k \<Longrightarrow> k + 1 \<le> whole_units capacity"
proof -
  assume "of_int k < capacity"
  then have "k < \<lceil>capacity\<rceil>" by (simp add: less_ceiling_iff)
  then show ?thesis by (simp add: whole_units_def)
qed

lemma whole_units_nonneg: "0 \<le> whole_units capacity"
  by (simp add: whole_units_def)

lemma whole_units_integer:
  assumes "0 \<le> capacity" "capacity \<in> \<int>"
  shows "of_int (whole_units capacity) = capacity"
proof -
  from assms(2) obtain n where n: "capacity = of_int n" by (auto elim: Ints_cases)
  with assms(1) have "0 \<le> n" by simp
  with n show ?thesis by (simp add: whole_units_def)
qed

lemma within_integer_capacity:
  assumes "0 \<le> capacity" "capacity \<in> \<int>" "k \<le> whole_units capacity"
  shows "real_of_int k \<le> capacity"
proof -
  from assms(3) have "real_of_int k \<le> of_int (whole_units capacity)" by simp
  with whole_units_integer[OF assms(1,2)] show ?thesis by simp
qed

lemma acquire_counters_ok: "counters_ok pm \<Longrightarrow> counters_ok (snd (snd (acquire excl now pm)))"
proof (cases "fst (acquire excl now pm)")
  case None
  assume "counters_ok pm"
  with acquire_None[OF None] show ?thesis by simp
next
  case (Some g)
  assume ok: "counters_ok pm"
  note el = acquire_eligible[OF Some]
  from el ok have "0 \<le> current (proxies pm ! index g)"
    and "of_int (current (proxies pm ! index g)) < maxRequests pm"
    by (auto simp: counters_ok_def eligible_def)
  then have "current (proxies pm ! index g) + 1 \<le> whole_units (maxRequests pm)"
    by (intro next_unit_fits)
  then show ?thesis
    unfolding counters_ok_def acquire_state(1)[OF Some]
    using ok el by (auto simp: counters_ok_def acquire_state(2)[OF Some] nth_list_update)
qed

lemma release_counters_ok: "counters_ok pm \<Longrightarrow> release i pm = Inr r \<Longrightarrow> counters_ok (snd r)"
  by (auto simp: counters_ok_def release_def Let_def nth_list_update split: if_splits)

lemma pm_step_counters_ok: "counters_ok pm \<Longrightarrow> counters_ok (pm_step op pm)"
proof (cases op)
  case (Acquire excl now)
  assume "counters_ok pm"
  then show ?thesis using Acquire by (simp add: acquire_counters_ok)
next
  case (Release i)
  assume "counters_ok pm"
  then show ?thesis using Release by (auto split: sum.splits dest: release_counters_ok)
next
  case (ReportFailure i now)
  assume "counters_ok pm"
  then show ?thesis using ReportFailure by (auto simp: counters_ok_def reportFailure_def Let_def)
next
  case (ResetFailures i)
  assume "counters_ok pm"
  then show ?thesis using ResetFailures by (auto simp: counters_ok_def resetFailures_def)
qed

lemma pm_run_counters_ok: "counters_ok pm \<Longrightarrow> counters_ok (pm_run ops pm)"
  by (induction ops arbitrary: pm) (auto intro: pm_step_counters_ok)

lemma counters_ok_whole_units: "counters_ok pm \<longleftrightarrow> pm_within_whole_units pm"
  by (auto simp: counters_ok_def pm_within_whole_units_def list_all_length)

lemma counters_ok_within:
  assumes "counters_ok pm" "0 \<le> maxRequests pm" "maxRequests pm \<in> \<int>"
  shows "pm_within_capacity pm"
  using assms(1) within_integer_capacity[OF assms(2,3)]
  by (auto simp: counters_ok_def pm_within_capacity_def list_all_length)

lemma new_counters_ok: "ProxyManager_new cfgs m = Inr pm \<Longrightarrow> counters_ok pm"
  by (auto simp: ProxyManager_new_def counters_ok_def whole_units_nonneg)

lemma new_maxRequests: "ProxyManager_new cfgs m = Inr pm \<Longrightarrow> maxRequests pm = m"
  by (auto simp: ProxyManager_new_def)

lemma pm_run_maxRequests [simp]: "maxRequests (pm_run ops pm) = maxRequests pm"
  by (induction ops arbitrary: pm) auto

lemma acquire_locked_in_use: "locked_in_use pm \<Longrightarrow> locked_in_use (snd (snd (acquire excl now pm)))"
proof (cases "fst (acquire excl now pm)")
  case None
  assume "locked_in_use pm"
  with acquire_None[OF None] show ?thesis by simp
next
  case (Some g)
  assume ok: "locked_in_use pm"
  note el = acquire_eligible[OF Some]
  show ?thesis
    unfolding locked_in_use_def acquire_state(1)[OF Some]
    using ok el by (auto simp: locked_in_use_def acquire_state(2)[OF Some] nth_list_update)
qed

lemma pm_step_locked_in_use: "locked_in_use pm \<Longrightarrow> locked_in_use (pm_step op pm)"
proof (cases op)
  case (Acquire excl now)
  assume "locked_in_use pm"
  then show ?thesis using Acquire by (simp add: acquire_locked_in_use)
next
  case (Release i)
  assume "locked_in_use pm"
  then show ?thesis using Release
    by (auto simp: locked_in_use_def release_def Let_def nth_list_update split: if_splits)
next
  case (ReportFailure i now)
  assume "locked_in_use pm"
  then show ?thesis using ReportFailure by (auto simp: locked_in_use_def reportFailure_def Let_def)
next
  case (ResetFailures i)
  assume "locked_in_use pm"
  then show ?thesis using ResetFailures by (auto simp: locked_in_use_def resetFailures_def)
qed

lemma pm_run_locked_in_use: "locked_in_use pm \<Longrightarrow> locked_in_use (pm_run ops pm)"
  by (induction ops arbitrary: pm) (auto intro: pm_step_locked_in_use)

lemma new_locked_in_use: "ProxyManager_new cfgs m = Inr pm \<Longrightarrow> locked_in_use pm"
  by (auto simp: ProxyManager_new_def locked_in_use_def)

lemma release_idle_noop:
  assumes "locked_in_use pm" "i < length (proxies pm)" "current (proxies pm ! i) = 0"
  shows "release i pm = Inr ([Emit_released], pm)"
proof -
  from assms have "i \<notin> lockedIndexes pm" by (auto simp: locked_in_use_def)
  then have "lockedIndexes pm - {i} = lockedIndexes pm" by auto
  with assms(2,3) show ?thesis by (simp add: release_def)
qed

subsection \<open>Failure counters, cooldown and locks\<close>

lemma acquire_failure_fields [simp]:
  "failureCount (snd (snd (acquire excl now pm))) = failureCount pm"
  "cooldownUntil (snd (snd (acquire excl now pm))) = cooldownUntil pm"
  by (auto simp: acquire_def Let_def split: option.splits)

lemma pm_step_failure_fields:
  "\<not> about_failures i op \<Longrightarrow>
     failureCount (pm_step op pm) i = failureCount pm i \<and>
     cooldownUntil (pm_step op pm) i = cooldownUntil pm i"
  by (cases op) (auto simp: release_def reportFailure_def resetFailures_def Let_def)

lemma pm_run_failure_fields:
  "list_all (\<lambda>op. \<not> about_failures i op) ops \<Longrightarrow>
     failureCount (pm_run ops pm) i = failureCount pm i \<and>
     cooldownUntil (pm_run ops pm) i = cooldownUntil pm i"
  by (induction ops arbitrary: pm) (auto simp: pm_step_failure_fields)

lemma reportFailure_count:
  "failureCount (snd (reportFailure i now pm)) i =
     Some ((case failureCount pm i of None \<Rightarrow> 0 | Some c \<Rightarrow> c) + 1)"
  by (simp add: reportFailure_def Let_def)

lemma reportFailure_cooldown:
  "cooldownUntil (snd (reportFailure i now pm)) i =
     (if 3 \<le> (case failureCount pm i of None \<Rightarrow> 0 | Some c \<Rightarrow> c) + 1 then Some (now + 10000)
      else cooldownUntil pm i)"
  by (simp add: reportFailure_def Let_def)

lemma third_failure_state:
  assumes zero: "failureCount pm i = None \<or> failureCount pm i = Some 0"
    and quiet: "list_all (\<lambda>op. \<not> about_failures i op) ops1"
               "list_all (\<lambda>op. \<not> about_failures i op) ops2"
               "list_all (\<lambda>op. \<not> about_failures i op) ops3"
  shows "cooldownUntil (pm_run (ReportFailure i t1 # ops1 @ ReportFailure i t2 # ops2
                                 @ ReportFailure i t3 # ops3) pm) i = Some (t3 + 10000)"
proof -
  let ?a = "pm_run ops1 (snd (reportFailure i t1 pm))"
  let ?b = "pm_run ops2 (snd (reportFailure i t2 ?a))"
  have a: "failureCount ?a i = Some 1"
    using zero by (auto simp: pm_run_failure_fields[OF quiet(1)] reportFailure_count)
  have b: "failureCount ?b i = Some 2"
    by (simp add: pm_run_failure_fields[OF quiet(2)] reportFailure_count a)
  show ?thesis
    by (simp add: pm_run_failure_fields[OF quiet(3)] reportFailure_cooldown b)
qed

lemma cooldown_blocks:
  assumes "cooldownUntil pm i = Some until" "now < until"
    and "fst (acquire excl now pm) = Some g"
  shows "index g \<noteq> i"
  using acquire_eligible[OF assms(3)] assms(1,2)
  by (auto simp: eligible_def isOnCooldown_def)

lemma locked_blocks:
  assumes "i \<in> lockedIndexes pm" "fst (acquire excl now pm) = Some g"
  shows "index g \<noteq> i"
  using acquire_eligible[OF assms(2)] assms(1) by (auto simp: eligible_def)

lemma acquire_locks:
  "fst (acquire excl now pm) = Some g \<Longrightarrow> index g \<in> lockedIndexes (snd (snd (acquire excl now pm)))"
  by (simp add: acquire_state(1))

lemma acquire_keeps_locks:
  "i \<in> lockedIndexes pm \<Longrightarrow> i \<in> lockedIndexes (snd (snd (acquire excl now pm)))"
  by (auto simp: acquire_def Let_def split: option.splits)

lemma pm_step_keeps_lock:
  "i \<in> lockedIndexes pm \<Longrightarrow> op \<noteq> Release i \<Longrightarrow> i \<in> lockedIndexes (pm_step op pm)"
  by (cases op) (auto simp: acquire_keeps_locks release_def reportFailure_def resetFailures_def Let_def)

lemma granted_not_locked:
  "i \<in> lockedIndexes pm \<Longrightarrow> g \<in> set (granted op pm) \<Longrightarrow> index g \<noteq> i"
proof (cases op)
  case (Acquire excl now)
  assume l: "i \<in> lockedIndexes pm" and g: "g \<in> set (granted op pm)"
  from g Acquire have "fst (acquire excl now pm) = Some g"
    by (cases "fst (acquire excl now pm)") auto
  with l show ?thesis by (rule locked_blocks)
qed auto

lemma locked_no_grant:
  "i \<in> lockedIndexes pm \<Longrightarrow> Release i \<notin> set ops \<Longrightarrow> g \<in> set (grants ops pm) \<Longrightarrow> index g \<noteq> i"
proof (induction ops arbitrary: pm)
  case Nil
  then show ?case by simp
next
  case (Cons op ops)
  from Cons.prems(3) consider "g \<in> set (granted op pm)" | "g \<in> set (grants ops (pm_step op pm))"
    by auto
  then show ?case
  proof cases
    case 1
    with Cons.prems(1) show ?thesis by (rule granted_not_locked)
  next
    case 2
    from Cons.prems(1,2) have "i \<in> lockedIndexes (pm_step op pm)"
      by (intro pm_step_keeps_lock) auto
    from Cons.IH[OF this _ 2] Cons.prems(2) show ?thesis by simp
  qed
qed

subsection \<open>The rotation cursor\<close>

lemma acquire_rotates:
  assumes "cursor_at pm i ps c" "ps \<noteq> []" "fst (acquire excl now pm) = Some g" "index g = i"
  shows "portIndex (proxy g) = Some (Suc c mod length ps)"
    and "port (proxy g) = Some (ps ! (Suc c mod length ps))"
    and "ports (proxy g) = ps"
    and "cursor_at (snd (snd (acquire excl now pm))) i ps (Suc c mod length ps)"
  using assms
  by (auto simp: cursor_at_def acquire_state(1)[OF assms(3)] acquire_state(2)[OF assms(3)]
      js_rem_def js_at_def)

lemma acquire_other_cursor:
  assumes "cursor_at pm i ps c" "fst (acquire excl now pm) = Some g" "index g \<noteq> i"
  shows "cursor_at (snd (snd (acquire excl now pm))) i ps c"
  using assms by (auto simp: cursor_at_def acquire_state(1)[OF assms(2)])

lemma release_cursor:
  "cursor_at pm i ps c \<Longrightarrow> release j pm = Inr r \<Longrightarrow> cursor_at (snd r) i ps c"
  by (auto simp: cursor_at_def release_def Let_def nth_list_update split: if_splits)

lemma pm_step_cursor:
  assumes "cursor_at pm i ps c" "ps \<noteq> []"
  shows "cursor_at (pm_step op pm) i ps
           (if \<exists>g \<in> set (granted op pm). index g = i then Suc c mod length ps else c)"
proof (cases op)
  case (Acquire excl now)
  show ?thesis
  proof (cases "fst (acquire excl now pm)")
    case None
    with assms Acquire acquire_None[OF None] show ?thesis by simp
  next
    case (Some g)
    show ?thesis
    proof (cases "index g = i")
      case True
      with acquire_rotates(4)[OF assms Some True] Acquire Some show ?thesis by simp
    next
      case False
      with acquire_other_cursor[OF assms(1) Some False] Acquire Some show ?thesis by simp
    qed
  qed
next
  case (Release j)
  with assms(1) show ?thesis by (auto split: sum.splits dest: release_cursor)
next
  case (ReportFailure j now)
  with assms(1) show ?thesis by (auto simp: cursor_at_def reportFailure_def Let_def)
next
  case (ResetFailures j)
  with assms(1) show ?thesis by (auto simp: cursor_at_def resetFailures_def)
qed

lemma granted_cases:
  "granted op pm = [] \<or> (\<exists>excl now g. op = Acquire excl now \<and> fst (acquire excl now pm) = Some g \<and> granted op pm = [g])"
  by (cases op) (auto split: option.splits)

lemma rotation_history:
  assumes "cursor_at pm i ps c" "ps \<noteq> []"
    and "k < length (filter (\<lambda>g. index g = i) (grants ops pm))"
  shows "portIndex (proxy (filter (\<lambda>g. index g = i) (grants ops pm) ! k))
           = Some ((c + k + 1) mod length ps)
       \<and> port (proxy (filter (\<lambda>g. index g = i) (grants ops pm) ! k))
           = Some (ps ! ((c + k + 1) mod length ps))"
  using assms
proof (induction ops arbitrary: pm c k)
  case Nil
  then show ?case by simp
next
  case (Cons op ops)
  let ?rest = "filter (\<lambda>g. index g = i) (grants ops (pm_step op pm))"
  note step = pm_step_cursor[OF Cons.prems(1,2), of op]
  show ?case
  proof (cases "\<exists>g \<in> set (granted op pm). index g = i")
    case False
    then have eq: "filter (\<lambda>g. index g = i) (grants (op # ops) pm) = ?rest" by auto
    from step False have "cursor_at (pm_step op pm) i ps c" by simp
    from Cons.IH[OF this Cons.prems(2)] Cons.prems(3) show ?thesis unfolding eq by simp
  next
    case True
    then obtain excl now g where op: "op = Acquire excl now"
        and g: "fst (acquire excl now pm) = Some g" and gr: "granted op pm = [g]" and gi: "index g = i"
      using granted_cases[of op pm] by auto
    have eq: "filter (\<lambda>g. index g = i) (grants (op # ops) pm) = g # ?rest"
      using gr gi by simp
    from step True have cur: "cursor_at (pm_step op pm) i ps (Suc c mod length ps)" by simp
    show ?thesis
    proof (cases k)
      case 0
      with acquire_rotates(1,2)[OF Cons.prems(1,2) g gi] show ?thesis unfolding eq by simp
    next
      case (Suc k')
      with Cons.prems(3) have "k' < length ?rest" unfolding eq by simp
      from Cons.IH[OF cur Cons.prems(2) this]
      have "portIndex (proxy (?rest ! k')) = Some ((Suc c mod length ps + k' + 1) mod length ps)
          \<and> port (proxy (?rest ! k')) = Some (ps ! ((Suc c mod length ps + k' + 1) mod length ps))" .
      moreover have "(Suc c mod length ps + k' + 1) mod length ps = (c + k + 1) mod length ps"
      proof -
        have "(Suc c mod length ps + (k' + 1)) mod length ps = (Suc c + (k' + 1)) mod length ps"
          by (rule mod_add_left_eq)
        also have "Suc c + (k' + 1) = c + k + 1" using Suc by simp
        finally show ?thesis by (simp only: add.assoc)
      qed
      ultimately show ?thesis unfolding eq using Suc by simp
    qed
  qed
qed

section \<open>Facts about the UserAgentManager\<close>

lemma usage_incrementUsage: "usage (incrementUsage ua m) ua' = (if ua' = ua then usage m ua + 1 else usage m ua')"
  by (simp add: usage_def incrementUsage_def)

lemma find_Some_P: "find P xs = Some x \<Longrightarrow> P x"
  by (induction xs) (auto split: if_splits)

lemma usage_update:
  "usage (m\<lparr>usageCount := (usageCount m)(ua \<mapsto> v)\<rparr>) ua' = (if ua' = ua then v else usage m ua')"
  by (simp add: usage_def)

lemma usage_waiters [simp]: "usage (m\<lparr>waiters := w\<rparr>) = usage m"
  by (simp add: usage_def fun_eq_iff)

lemma maxConcurrentUses_incrementUsage [simp]:
  "maxConcurrentUses (incrementUsage ua m) = maxConcurrentUses m"
  by (simp add: incrementUsage_def)

lemma ua_acquire_counters_ok:
  assumes "ua_counters_ok m"
  shows "ua_counters_ok (snd (snd (UserAgentManager_acquire shuffled caller m)))"
proof (cases "getAvailableUserAgent shuffled m")
  case None
  with assms show ?thesis
    by (simp add: UserAgentManager_acquire_def ua_counters_ok_def)
next
  case (Some ua)
  then have "of_int (usage m ua) < maxConcurrentUses m"
    unfolding getAvailableUserAgent_def by (rule find_Some_P)
  moreover from assms have b: "\<And>u. 0 \<le> usage m u \<and> usage m u \<le> whole_units (maxConcurrentUses m)"
    by (simp add: ua_counters_ok_def)
  ultimately have "usage m ua + 1 \<le> whole_units (maxConcurrentUses m)"
    by (intro next_unit_fits) simp_all
  with b Some show ?thesis
    by (simp add: UserAgentManager_acquire_def ua_counters_ok_def usage_incrementUsage)
qed

lemma ua_release_counters_ok:
  assumes "ua_counters_ok m"
  shows "ua_counters_ok (snd (UserAgentManager_release ua m))"
proof (cases "usage m ua > 0")
  case False
  with assms show ?thesis by (simp add: UserAgentManager_release_def)
next
  case True
  from assms have b: "\<And>u. 0 \<le> usage m u \<and> usage m u \<le> whole_units (maxConcurrentUses m)"
    by (simp add: ua_counters_ok_def)
  have c: "usage m ua - 1 \<le> whole_units (maxConcurrentUses m)" "0 \<le> usage m ua - 1"
    using b[of ua] True by linarith+
  show ?thesis
  proof (cases "waiters m")
    case Nil
    with True c b show ?thesis
      by (simp add: UserAgentManager_release_def ua_counters_ok_def usage_update)
  next
    case (Cons w rest)
    with True c b show ?thesis
      by (simp add: UserAgentManager_release_def ua_counters_ok_def usage_update
          usage_incrementUsage)
  qed
qed

lemma ua_step_counters_ok: "ua_counters_ok m \<Longrightarrow> ua_counters_ok (ua_step op m)"
  by (cases op) (simp_all add: ua_acquire_counters_ok ua_release_counters_ok)

lemma ua_run_counters_ok: "ua_counters_ok m \<Longrightarrow> ua_counters_ok (ua_run ops m)"
  unfolding ua_run_def by (induction ops arbitrary: m) (auto intro: ua_step_counters_ok)

lemma fold_zero_usage:
  "(\<forall>ua. (case f ua of None \<Rightarrow> 0 | Some c \<Rightarrow> c) = (0::int)) \<Longrightarrow>
   (case fold (\<lambda>ua m. m(ua \<mapsto> 0)) uas f ua' of None \<Rightarrow> 0 | Some c \<Rightarrow> c) = (0::int)"
  by (induction uas arbitrary: f) (auto split: option.splits)

lemma ua_new_counters_ok: "ua_counters_ok (UserAgentManager_new uas maxUses)"
  using fold_zero_usage[of Map.empty uas]
  by (simp add: ua_counters_ok_def UserAgentManager_new_def usage_def whole_units_nonneg)

lemma ua_counters_ok_whole_units: "ua_counters_ok m \<Longrightarrow> ua_within_whole_units m"
  by (simp add: ua_counters_ok_def ua_within_whole_units_def list_all_iff)

lemma ua_counters_ok_within:
  assumes "ua_counters_ok m" "0 \<le> maxConcurrentUses m" "maxConcurrentUses m \<in> \<int>"
  shows "ua_within_capacity m"
  using assms(1) within_integer_capacity[OF assms(2,3)]
  by (simp add: ua_counters_ok_def ua_within_capacity_def list_all_iff)

lemma ua_step_maxConcurrentUses [simp]: "maxConcurrentUses (ua_step op m) = maxConcurrentUses m"
  by (cases op)
     (auto simp: UserAgentManager_acquire_def UserAgentManager_release_def Let_def
           split: option.splits list.splits)

lemma ua_run_maxConcurrentUses [simp]: "maxConcurrentUses (ua_run ops m) = maxConcurrentUses m"
  unfolding ua_run_def by (induction ops arbitrary: m) auto

lemma ua_new_maxConcurrentUses [simp]:
  "maxConcurrentUses (UserAgentManager_new uas maxUses) = maxUses"
  by (simp add: UserAgentManager_new_def)

lemma ua_release_idle: "usage m ua = 0 \<Longrightarrow> UserAgentManager_release ua m = ([Console_warn], m)"
  by (simp add: UserAgentManager_release_def)

section \<open>Facts about the RequestManager\<close>

lemma request_unknown_key:
  assumes "limits rm apiKey = None" "limits_proto rm = None" "apiKey \<notin> set Object_prototype_names"
  shows "request apiKey req now rm = Inl (Error_no_registrada apiKey)"
  using assms by (auto simp: request_def limits_get_def Object_prototype_names_def)

lemma request_registered_head:
  assumes "limits rm apiKey = Some a" "apiKey \<noteq> ''__proto__''" "a < length (heap rm)"
    and "queue (heap rm ! a) = []" "requests (heap rm ! a) = []" "0 < APILimit.maxRequests (heap rm ! a)"
  shows "request apiKey req now rm
           = Inr ([Invoke req now],
                  rm\<lparr>heap := (heap rm)[a := (heap rm ! a)\<lparr>queue := [req], requests := [now]\<rparr>]\<rparr>)"
  using assms by (simp add: request_def limits_get_def tryExecute_def)

lemma head_closure_called_again:
  assumes "a < length (heap rm)" "queue (heap rm ! a) = req # rest"
    and "int (length (filter (\<lambda>ts. int now - int ts < windowMs (heap rm ! a)) (requests (heap rm ! a))))
           < APILimit.maxRequests (heap rm ! a)"
  shows "fst (afterCallback a req (Rejected e) now rm) = [Reject req e, Invoke req now]"
  using assms by (simp add: afterCallback_def tryExecute_def Let_def)

section \<open>Facts about the examples\<close>

lemma one_proxy_new: "ProxyManager_new [example_config] m = Inr (one_proxy m)"
  by (simp add: ProxyManager_new_def one_proxy_def example_config_def example_state_def js_at_def)

lemma two_proxies_new: "ProxyManager_new [example_config, example_config] m = Inr (two_proxies m)"
  by (simp add: ProxyManager_new_def two_proxies_def example_config_def example_state_def js_at_def)

lemmas pm_defs = one_proxy_def two_proxies_def example_state_def acquire_def release_def
  reportFailure_def resetFailures_def findIndex_def eligible_def isOnCooldown_def js_at_def
  js_rem_def Let_def

lemma cooled_pool_cooldown: "cooldownUntil cooled_pool 0 = Some 10000"
  by (simp add: cooled_pool_def pm_defs)

lemma cooled_pool_grant: "fst (acquire [] 10000 cooled_pool) = Some first_grant"
  by (simp add: cooled_pool_def first_grant_def pm_defs)

lemma first_grant_example: "fst (acquire [] 0 (two_proxies 5)) = Some first_grant"
  by (simp add: first_grant_def pm_defs)

lemma idle_history_state: "pm_run idle_history (one_proxy 1)
   = (one_proxy 1)\<lparr>proxies := [example_state\<lparr>portIndex := Some 1, port := Some 8001\<rparr>]\<rparr>"
  by (simp add: idle_history_def pm_defs)

text \<open>
  The guard of an earlier grant is not cancelled by \<open>release\<close>: when it fires after the
  proxy has been granted again, it finds a positive count and takes the new holder's unit
  and lock, and with capacity 1 the proxy is granted a third time while B still holds it.
\<close>

lemma stale_guard_frees_new_holder:
  "map index (grants stale_guard_history (one_proxy 1)) = [0, 0, 0]"
  by (simp add: stale_guard_history_def pm_defs)

lemmas rm_defs = boot_def registerAPI_def RequestManager_new_def deliver_def request_def
  limits_get_def tryExecute_def afterCallback_def absorb_def Object_prototype_names_def Let_def

section \<open>The claims\<close>

subsection \<open>C1: usage counters stay within the capacity\<close>

text \<open>
  Claim C1, as amended. For a ProxyManager and a UserAgentManager built by their
  constructors with a capacity that is a non-negative integer, after any history of
  \<open>acquire\<close>, \<open>release\<close>, \<open>reportFailure\<close> and \<open>resetFailures\<close> calls every resource of the
  pool has a usage count between zero and the capacity. For any finite capacity, the
  usage counts stay between zero and the capacity rounded up (zero for a negative one).
\<close>

theorem usage_within_capacity:
  assumes "ProxyManager_new configs maxReq = Inr pm"
  shows "(0 \<le> maxReq \<and> maxReq \<in> \<int> \<longrightarrow> pm_within_capacity (pm_run ops pm))
       \<and> (0 \<le> maxUses \<and> maxUses \<in> \<int> \<longrightarrow>
            ua_within_capacity (ua_run uops (UserAgentManager_new uas maxUses)))
       \<and> pm_within_whole_units (pm_run ops pm)
       \<and> ua_within_whole_units (ua_run uops (UserAgentManager_new uas maxUses))"
proof -
  have pm: "counters_ok (pm_run ops pm)"
    using new_counters_ok[OF assms] by (rule pm_run_counters_ok)
  have ua: "ua_counters_ok (ua_run uops (UserAgentManager_new uas maxUses))"
    using ua_new_counters_ok by (rule ua_run_counters_ok)
  have "pm_within_capacity (pm_run ops pm)" if "0 \<le> maxReq \<and> maxReq \<in> \<int>"
    using pm that by (intro counters_ok_within) (simp_all add: new_maxRequests[OF assms])
  moreover have "ua_within_capacity (ua_run uops (UserAgentManager_new uas maxUses))"
    if "0 \<le> maxUses \<and> maxUses \<in> \<int>"
    using ua that by (intro ua_counters_ok_within) simp_all
  moreover have "pm_within_whole_units (pm_run ops pm)"
    using pm by (simp add: counters_ok_whole_units)
  moreover have "ua_within_whole_units (ua_run uops (UserAgentManager_new uas maxUses))"
    using ua by (rule ua_counters_ok_whole_units)
  ultimately show ?thesis by blast
qed

text \<open>
  Witness for C1: a pool of one proxy with capacity 1 on which \<open>acquire\<close> runs twice and
  \<open>release\<close> twice, and a pool of two user-agents with capacity 1.
\<close>

theorem usage_within_capacity_witness:
  "ProxyManager_new [example_config] 1 = Inr (one_proxy 1)
   \<and> (0::real) \<le> 1 \<and> (1::real) \<in> \<int>
   \<and> pm_within_capacity (pm_run [Acquire [] 0, Acquire [] 1, Release 0, Release 0] (one_proxy 1))
   \<and> ua_within_capacity (ua_run [UA_acquire [''UA2'', ''UA1''] 1, UA_release ''UA2'', UA_release ''UA2'']
        (UserAgentManager_new [''UA1'', ''UA2''] 1))
   \<and> pm_within_whole_units (pm_run [Acquire [] 0, Acquire [] 1, Release 0, Release 0] (one_proxy 1))
   \<and> ua_within_whole_units (ua_run [UA_acquire [''UA2'', ''UA1''] 1, UA_release ''UA2'', UA_release ''UA2'']
        (UserAgentManager_new [''UA1'', ''UA2''] 1))"
proof -
  have h1: "ProxyManager_new [example_config] 1 = Inr (one_proxy 1)"
    by (rule one_proxy_new)
  have h2: "(0::real) \<le> 1 \<and> (1::real) \<in> \<int>" by simp
  from usage_within_capacity[OF h1, where maxUses = 1] h1 h2 show ?thesis by blast
qed

text \<open>
  Counterexample to C1 as stated (for every pool): neither constructor checks the capacity.
  A pool built with capacity \<open>-1\<close> holds a resource with usage count \<open>0 > -1\<close> before any
  operation has run; a pool built with capacity \<open>0.5\<close> passes the test \<open>0 < 0.5\<close> and its
  first \<open>acquire\<close> takes the count to \<open>1 > 0.5\<close>.
\<close>

theorem unchecked_capacity_counterexample:
  "ProxyManager_new [example_config] (- 1) = Inr (one_proxy (- 1))
   \<and> \<not> pm_within_capacity (pm_run [] (one_proxy (- 1)))
   \<and> \<not> ua_within_capacity (ua_run [] (UserAgentManager_new [''UA1''] (- 1)))
   \<and> ProxyManager_new [example_config] (1 / 2) = Inr (one_proxy (1 / 2))
   \<and> \<not> pm_within_capacity (pm_run [Acquire [] 0] (one_proxy (1 / 2)))
   \<and> \<not> ua_within_capacity (ua_run [UA_acquire [''UA1''] 1] (UserAgentManager_new [''UA1''] (1 / 2)))"
proof -
  have "ProxyManager_new [example_config] (- 1) = Inr (one_proxy (- 1))"
    by (rule one_proxy_new)
  moreover have "\<not> pm_within_capacity (pm_run [] (one_proxy (- 1)))"
    by (simp add: pm_within_capacity_def one_proxy_def example_state_def)
  moreover have "\<not> ua_within_capacity (ua_run [] (UserAgentManager_new [''UA1''] (- 1)))"
    by (simp add: ua_within_capacity_def ua_run_def UserAgentManager_new_def usage_def)
  moreover have "ProxyManager_new [example_config] (1 / 2) = Inr (one_proxy (1 / 2))"
    by (rule one_proxy_new)
  moreover have "\<not> pm_within_capacity (pm_run [Acquire [] 0] (one_proxy (1 / 2)))"
    by (simp add: pm_within_capacity_def pm_defs)
  moreover have "\<not> ua_within_capacity
      (ua_run [UA_acquire [''UA1''] 1] (UserAgentManager_new [''UA1''] (1 / 2)))"
    by (simp add: ua_within_capacity_def ua_run_def UserAgentManager_new_def usage_def
        UserAgentManager_acquire_def getAvailableUserAgent_def incrementUsage_def)
  ultimately show ?thesis by blast
qed

subsection \<open>C2: three requests at time zero under a limit of two per second\<close>

text \<open>
  Claim C2 says that of three \<open>request\<close> calls made at time 0 on a channel registered with
  \<open>maxRequests = 2\<close> and \<open>windowMs = 1000\<close> the first two operations run at once. In the code
  the closure of the first request is still at the head of the queue when its callback has
  settled, so \<open>queue.shift()\<close> returns that closure and it calls its callback a second time:
  after the three calls only operation 1 has been invoked; when it settles it is invoked
  again at time 0 and takes the second slot of the window; the closure of request 2 then
  finds the window full and arms a timer of 1000 ms, and operation 2 starts at time 1000.
\<close>

theorem second_request_misses_first_window:
  "map_option effects (schedule three_at_zero (boot (registerAPI ''x'' 2 1000 RequestManager_new)))
     = Some [Invoke 1 0]
   \<and> map_option effects
        (schedule three_at_zero_continued (boot (registerAPI ''x'' 2 1000 RequestManager_new)))
     = Some [Invoke 1 0, Resolve 1 10, Invoke 1 0, Resolve 1 10,
             Warn (Some 1000), SetTimeout 0 2 (Some 1000),
             Invoke 2 1000, Resolve 2 20, Invoke 3 1000]"
  by (simp add: three_at_zero_continued_def three_at_zero_def rm_defs)

subsection \<open>C3: a failing operation and the window quota\<close>

text \<open>
  Claim C3 says that a submitted operation is executed exactly once and records exactly one
  timestamp, also when it fails. In the code a single \<open>request\<close> on an idle channel, whose
  operation rejects, has its callback invoked at time 0 and, once that has settled at time
  5, invoked again; the window then holds the two timestamps 0 and 5.
\<close>

theorem rejected_operation_runs_twice:
  "map_option effects (schedule one_rejected (boot (registerAPI ''x'' 5 1000 RequestManager_new)))
     = Some [Invoke 1 0, Reject 1 7, Invoke 1 5, Reject 1 7]
   \<and> map_option (map requests \<circ> heap \<circ> manager)
        (schedule one_rejected (boot (registerAPI ''x'' 5 1000 RequestManager_new)))
     = Some [[0, 5]]"
  by (simp add: one_rejected_def rm_defs)

subsection \<open>C4: the third failure starts a cooldown of ten seconds\<close>

text \<open>
  Claim C4. Let the failure counter of index \<open>i\<close> be zero (absent or reset), and let
  \<open>reportFailure(i)\<close> run three times, at times \<open>t1\<close>, \<open>t2\<close>, \<open>t3\<close>, with any calls between
  and after them that are not \<open>reportFailure(i)\<close> or \<open>resetFailures(i)\<close>. Then the cooldown
  expiry of \<open>i\<close> is \<open>t3 + 10000\<close>; at any time before that instant \<open>i\<close> is on cooldown and no
  pass of \<open>acquire\<close> returns \<open>i\<close>; from that instant on \<open>i\<close> is not on cooldown, and whether
  the scan accepts it depends only on its usage count, the exclusions and the locks. And
  \<open>resetFailures(i)\<close>, on any pool, sets the failure counter of \<open>i\<close> to zero and leaves every
  cooldown expiry as it was.
\<close>

theorem third_failure_cooldown:
  assumes "failureCount pm i = None \<or> failureCount pm i = Some 0"
    and "list_all (\<lambda>op. \<not> about_failures i op) ops1"
    and "list_all (\<lambda>op. \<not> about_failures i op) ops2"
    and "list_all (\<lambda>op. \<not> about_failures i op) ops3"
    and "pm3 = pm_run (ReportFailure i t1 # ops1 @ ReportFailure i t2 # ops2
                        @ ReportFailure i t3 # ops3) pm"
  shows "cooldownUntil pm3 i = Some (t3 + 10000)
       \<and> (now < t3 + 10000 \<longrightarrow>
            isOnCooldown pm3 now i \<and> map_option index (fst (acquire excl now pm3)) \<noteq> Some i)
       \<and> (t3 + 10000 \<le> later \<longrightarrow>
            \<not> isOnCooldown pm3 later i \<and>
            eligible pm3 excl later p i
              = (of_int (current p) < maxRequests pm3 \<and> i \<notin> set excl \<and> i \<notin> lockedIndexes pm3))
       \<and> failureCount (resetFailures i pm') i = Some 0
       \<and> cooldownUntil (resetFailures i pm') = cooldownUntil pm'"
proof -
  have cd: "cooldownUntil pm3 i = Some (t3 + 10000)"
    unfolding assms(5) using assms(1-4) by (rule third_failure_state)
  have on: "isOnCooldown pm3 t i = (t < t3 + 10000)" for t
    by (simp add: isOnCooldown_def cd)
  have blocked: "map_option index (fst (acquire excl now pm3)) \<noteq> Some i" if "now < t3 + 10000"
  proof
    assume "map_option index (fst (acquire excl now pm3)) = Some i"
    then obtain g where "fst (acquire excl now pm3) = Some g" "index g = i" by auto
    with cooldown_blocks[OF cd that] show False by simp
  qed
  have free: "eligible pm3 excl later p i
              = (of_int (current p) < maxRequests pm3 \<and> i \<notin> set excl \<and> i \<notin> lockedIndexes pm3)"
    if "t3 + 10000 \<le> later"
    using that by (auto simp: eligible_def on)
  have reset: "failureCount (resetFailures i pm') i = Some 0"
       "cooldownUntil (resetFailures i pm') = cooldownUntil pm'"
    by (simp_all add: resetFailures_def)
  from cd on blocked free reset show ?thesis by auto
qed

text \<open>
  Witness for C4: three failures of proxy 0 at times 100, 200 and 300, with an
  \<open>acquire\<close>, a \<open>release\<close> and a failure of proxy 1 between and after them.
\<close>

theorem third_failure_cooldown_witness:
  "(failureCount (two_proxies 2) 0 = None \<or> failureCount (two_proxies 2) 0 = Some 0)
   \<and> list_all (\<lambda>op. \<not> about_failures 0 op) [Acquire [] 150]
   \<and> list_all (\<lambda>op. \<not> about_failures 0 op) [Release 0]
   \<and> list_all (\<lambda>op. \<not> about_failures 0 op) [ReportFailure 1 350]
   \<and> cooldownUntil (pm_run failing_history (two_proxies 2)) 0 = Some 10300
   \<and> (10299::nat) < 300 + 10000
   \<and> isOnCooldown (pm_run failing_history (two_proxies 2)) 10299 0
   \<and> map_option index (fst (acquire [] 10299 (pm_run failing_history (two_proxies 2)))) \<noteq> Some 0
   \<and> (300::nat) + 10000 \<le> 10300
   \<and> \<not> isOnCooldown (pm_run failing_history (two_proxies 2)) 10300 0
   \<and> failureCount (resetFailures 0 (pm_run failing_history (two_proxies 2))) 0 = Some 0
   \<and> cooldownUntil (resetFailures 0 (pm_run failing_history (two_proxies 2)))
        = cooldownUntil (pm_run failing_history (two_proxies 2))"
proof -
  have h1: "failureCount (two_proxies 2) 0 = None \<or> failureCount (two_proxies 2) 0 = Some 0"
    by (simp add: two_proxies_def)
  have h2: "list_all (\<lambda>op. \<not> about_failures 0 op) [Acquire [] 150]" by simp
  have h3: "list_all (\<lambda>op. \<not> about_failures 0 op) [Release 0]" by simp
  have h4: "list_all (\<lambda>op. \<not> about_failures 0 op) [ReportFailure 1 350]" by simp
  have h5: "pm_run failing_history (two_proxies 2)
      = pm_run (ReportFailure 0 100 # [Acquire [] 150] @ ReportFailure 0 200 # [Release 0]
                       @ ReportFailure 0 300 # [ReportFailure 1 350]) (two_proxies 2)"
    by (simp only: failing_history_def)
  have h6: "(10299::nat) < 300 + 10000" by simp
  have h7: "(300::nat) + 10000 \<le> 10300" by simp
  from third_failure_cooldown[OF h1 h2 h3 h4 h5, of 10299 "[]" 10300 example_state
         "pm_run failing_history (two_proxies 2)"] h1 h2 h3 h4 h6 h7
  show ?thesis by simp
qed

subsection \<open>C5: acquire never selects a resource on cooldown\<close>

text \<open>
  Claim C5. In every pool state (reachable or not) and at every time \<open>now\<close>, an index
  returned by \<open>acquire\<close> has no cooldown expiry later than \<open>now\<close>.
\<close>

theorem acquire_respects_cooldown:
  "fst (acquire excludeIndexes now pm) = Some g \<Longrightarrow>
     cooldownUntil pm (index g) = Some until \<Longrightarrow> \<not> now < until"
  by (drule acquire_eligible) (auto simp: eligible_def isOnCooldown_def)

text \<open>
  Witness for C5: proxy 0 failed three times at time 0; at time 10000, the instant of
  expiry, \<open>acquire\<close> returns it.
\<close>

theorem acquire_respects_cooldown_witness:
  "fst (acquire [] 10000 cooled_pool) = Some first_grant
   \<and> cooldownUntil cooled_pool (index first_grant) = Some 10000 \<and> \<not> (10000::nat) < 10000"
proof -
  have h1: "fst (acquire [] 10000 cooled_pool) = Some first_grant" by (rule cooled_pool_grant)
  have h2: "cooldownUntil cooled_pool (index first_grant) = Some 10000"
    by (simp add: first_grant_def cooled_pool_cooldown)
  from acquire_respects_cooldown[OF h1 h2] h1 h2 show ?thesis by blast
qed

subsection \<open>C6: round-robin rotation of the ports\<close>

text \<open>
  Claim C6. For a proxy \<open>i\<close> that carries ports (its list \<open>ps\<close> is not empty; on an empty
  list the remainder is \<open>NaN\<close> and the port \<open>undefined\<close>) and whose cursor stands at \<open>c\<close>: a pass of \<open>acquire\<close> that returns \<open>i\<close> moves the cursor to \<open>(c + 1) mod length ps\<close>,
  sets the active port to the port at the new cursor, and returns the state so updated; and
  along any history the \<open>(k+1)\<close>-th acquisition of \<open>i\<close> yields the port at position
  \<open>(c + k + 1) mod length ps\<close>: for \<open>[p0, p1, p2]\<close> and cursor 0 the ports \<open>p1, p2, p0, p1, ...\<close>.
\<close>

theorem port_rotation:
  assumes "i < length (proxies pm)" and "ports (proxies pm ! i) = ps" and "ps \<noteq> []"
    and "portIndex (proxies pm ! i) = Some c"
  shows "(fst (acquire excl now pm) = Some g \<and> index g = i \<longrightarrow>
            portIndex (proxy g) = Some ((c + 1) mod length ps)
          \<and> port (proxy g) = Some (ps ! ((c + 1) mod length ps))
          \<and> proxies (snd (snd (acquire excl now pm))) ! i = proxy g)
       \<and> (k < length (filter (\<lambda>g. index g = i) (grants ops pm)) \<longrightarrow>
            port (proxy (filter (\<lambda>g. index g = i) (grants ops pm) ! k))
              = Some (ps ! ((c + k + 1) mod length ps)))"
proof -
  have cur: "cursor_at pm i ps c" using assms(1,2,4) by (simp add: cursor_at_def)
  have one: "portIndex (proxy g) = Some ((c + 1) mod length ps)
          \<and> port (proxy g) = Some (ps ! ((c + 1) mod length ps))
          \<and> proxies (snd (snd (acquire excl now pm))) ! i = proxy g"
    if g: "fst (acquire excl now pm) = Some g" and gi: "index g = i"
    using acquire_rotates(1,2)[OF cur assms(3) g gi] assms(1) gi
    by (simp add: acquire_state(1)[OF g])
  have many: "port (proxy (filter (\<lambda>g. index g = i) (grants ops pm) ! k))
              = Some (ps ! ((c + k + 1) mod length ps))"
    if "k < length (filter (\<lambda>g. index g = i) (grants ops pm))"
    using rotation_history[OF cur assms(3) that] by simp
  from one many show ?thesis by blast
qed

text \<open>
  Witness for C6: four acquisitions of proxy 0 of a pool of two proxies with ports
  8000, 8001, 8002 yield 8001, 8002, 8000, 8001.
\<close>

theorem port_rotation_witness:
  "(0::nat) < length (proxies (two_proxies 5))
   \<and> ports (proxies (two_proxies 5) ! 0) = [8000, 8001, 8002]
   \<and> [8000, 8001, 8002] \<noteq> ([] :: int list)
   \<and> portIndex (proxies (two_proxies 5) ! 0) = Some 0
   \<and> fst (acquire [] 0 (two_proxies 5)) = Some first_grant \<and> index first_grant = 0
   \<and> port (proxy first_grant) = Some 8001
   \<and> (3::nat) < length (filter (\<lambda>g. index g = 0) (grants rotating_history (two_proxies 5)))
   \<and> map (\<lambda>g. port (proxy g)) (filter (\<lambda>g. index g = 0) (grants rotating_history (two_proxies 5)))
        = [Some 8001, Some 8002, Some 8000, Some 8001]
   \<and> port (proxy (filter (\<lambda>g. index g = 0) (grants rotating_history (two_proxies 5)) ! 3))
        = Some ([8000, 8001, 8002] ! ((0 + 3 + 1) mod 3))"
proof -
  have h1: "(0::nat) < length (proxies (two_proxies 5))" by (simp add: two_proxies_def)
  have h2: "ports (proxies (two_proxies 5) ! 0) = [8000, 8001, 8002]"
    by (simp add: two_proxies_def example_state_def)
  have h3: "[8000, 8001, 8002] \<noteq> ([] :: int list)" by simp
  have h4: "portIndex (proxies (two_proxies 5) ! 0) = Some 0"
    by (simp add: two_proxies_def example_state_def)
  have h5: "fst (acquire [] 0 (two_proxies 5)) = Some first_grant \<and> index first_grant = 0"
    by (simp add: first_grant_example) (simp add: first_grant_def)
  have h6: "map (\<lambda>g. port (proxy g)) (filter (\<lambda>g. index g = 0) (grants rotating_history (two_proxies 5)))
        = [Some 8001, Some 8002, Some 8000, Some 8001]"
    by (simp add: rotating_history_def pm_defs)
  have h7: "(3::nat) < length (filter (\<lambda>g. index g = 0) (grants rotating_history (two_proxies 5)))"
    using arg_cong[OF h6, of length] by simp
  from port_rotation[OF h1 h2 h3 h4, of "[]" 0 first_grant 3 rotating_history] h1 h2 h3 h4 h5 h6 h7
  show ?thesis by simp
qed

subsection \<open>C7: releasing an idle resource\<close>

text \<open>
  Claim C7, as amended. In a ProxyManager reached from the constructor by any history,
  \<open>release(i)\<close> for a valid index \<open>i\<close> whose usage count is zero does not throw, leaves every
  field of the pool as it was, logs nothing and emits \<open>released\<close>. In a UserAgentManager,
  \<open>release(ua)\<close> for a user-agent whose usage count is zero leaves the pool as it was and
  logs a warning. A release that finds the count at zero can therefore be repeated without
  effect on the pool.
\<close>

theorem release_of_idle_resource:
  "(ProxyManager_new configs maxReq = Inr pm0 \<and> i < length (proxies (pm_run ops pm0))
      \<and> current (proxies (pm_run ops pm0) ! i) = 0
    \<longrightarrow> release i (pm_run ops pm0) = Inr ([Emit_released], pm_run ops pm0))
   \<and> (usage m ua = 0 \<longrightarrow> UserAgentManager_release ua m = ([Console_warn], m))"
proof (intro conjI impI)
  assume a: "ProxyManager_new configs maxReq = Inr pm0 \<and> i < length (proxies (pm_run ops pm0))
      \<and> current (proxies (pm_run ops pm0) ! i) = 0"
  then have "locked_in_use (pm_run ops pm0)"
    by (intro pm_run_locked_in_use new_locked_in_use[of configs maxReq]) simp
  with a show "release i (pm_run ops pm0) = Inr ([Emit_released], pm_run ops pm0)"
    by (intro release_idle_noop) simp_all
next
  assume "usage m ua = 0"
  then show "UserAgentManager_release ua m = ([Console_warn], m)" by (rule ua_release_idle)
qed

text \<open>
  Witness for C7: proxy 0 acquired and released once, then released again; a user-agent
  that was never acquired.
\<close>

theorem release_of_idle_resource_witness:
  "ProxyManager_new [example_config] 1 = Inr (one_proxy 1)
   \<and> 0 < length (proxies (pm_run idle_history (one_proxy 1)))
   \<and> current (proxies (pm_run idle_history (one_proxy 1)) ! 0) = 0
   \<and> release 0 (pm_run idle_history (one_proxy 1)) = Inr ([Emit_released], pm_run idle_history (one_proxy 1))
   \<and> usage (UserAgentManager_new [''UA1''] 1) ''UA1'' = 0
   \<and> UserAgentManager_release ''UA1'' (UserAgentManager_new [''UA1''] 1)
        = ([Console_warn], UserAgentManager_new [''UA1''] 1)"
proof -
  have h1: "ProxyManager_new [example_config] 1 = Inr (one_proxy 1)" by (rule one_proxy_new)
  have h2: "0 < length (proxies (pm_run idle_history (one_proxy 1)))"
    by (simp only: idle_history_state) (simp add: one_proxy_def)
  have h3: "current (proxies (pm_run idle_history (one_proxy 1)) ! 0) = 0"
    by (simp only: idle_history_state) (simp add: one_proxy_def example_state_def)
  have h4: "usage (UserAgentManager_new [''UA1''] 1) ''UA1'' = 0"
    by (simp add: UserAgentManager_new_def usage_def)
  from release_of_idle_resource[of "[example_config]" 1 "one_proxy 1" 0 idle_history
         "UserAgentManager_new [''UA1''] 1" "''UA1''"] h1 h2 h3 h4
  show ?thesis by simp
qed

text \<open>
  Counterexample to C7 as stated (a warning is logged): \<open>release(0)\<close> on a freshly built
  ProxyManager emits \<open>released\<close> and nothing else; \<open>ProxyManager.release\<close> has no
  \<open>console.warn\<close>.
\<close>

theorem silent_release_counterexample:
  "ProxyManager_new [example_config] 1 = Inr (one_proxy 1)
   \<and> current (proxies (one_proxy 1) ! 0) = 0
   \<and> release 0 (one_proxy 1) = Inr ([Emit_released], one_proxy 1)
   \<and> Console_warn \<notin> set [Emit_released]"
proof -
  have "release 0 (one_proxy 1) = Inr ([Emit_released], one_proxy 1)"
    by (simp add: release_def one_proxy_def example_state_def)
  then show ?thesis by (simp add: one_proxy_new) (simp add: one_proxy_def example_state_def)
qed

subsection \<open>C8: a granted proxy stays locked until it is released\<close>

text \<open>
  Claim C8. A pass of \<open>acquire\<close> that returns index \<open>i\<close> puts \<open>i\<close> into \<open>lockedIndexes\<close>,
  and along any later history that contains no \<open>release(i)\<close> (the caller's or the timeout
  guard's) no pass of \<open>acquire\<close> returns \<open>i\<close>, whatever its usage count and the capacity.
\<close>

theorem locked_until_release:
  assumes "fst (acquire excl now pm) = Some g" and "Release (index g) \<notin> set ops"
  shows "index g \<in> lockedIndexes (snd (snd (acquire excl now pm)))
       \<and> list_all (\<lambda>g'. index g' \<noteq> index g) (grants ops (snd (snd (acquire excl now pm))))"
proof -
  have l: "index g \<in> lockedIndexes (snd (snd (acquire excl now pm)))"
    using assms(1) by (rule acquire_locks)
  then have "\<forall>g' \<in> set (grants ops (snd (snd (acquire excl now pm)))). index g' \<noteq> index g"
    using assms(2) by (blast dest: locked_no_grant)
  with l show ?thesis by (simp add: list_all_iff)
qed

text \<open>
  Witness for C8: capacity 5, two proxies; proxy 0 is granted once (usage 1 of 5) and
  every later grant goes to proxy 1.
\<close>

theorem locked_until_release_witness:
  "fst (acquire [] 0 (two_proxies 5)) = Some first_grant
   \<and> Release (index first_grant) \<notin> set busy_history
   \<and> of_int (current (proxy first_grant)) < maxRequests (two_proxies 5)
   \<and> index first_grant \<in> lockedIndexes (snd (snd (acquire [] 0 (two_proxies 5))))
   \<and> list_all (\<lambda>g'. index g' \<noteq> index first_grant)
        (grants busy_history (snd (snd (acquire [] 0 (two_proxies 5)))))
   \<and> map index (grants busy_history (snd (snd (acquire [] 0 (two_proxies 5))))) = [1, 1]"
proof -
  have h1: "fst (acquire [] 0 (two_proxies 5)) = Some first_grant" by (rule first_grant_example)
  have h2: "Release (index first_grant) \<notin> set busy_history"
    by (simp add: busy_history_def first_grant_def)
  have h3: "of_int (current (proxy first_grant)) < maxRequests (two_proxies 5)"
    by (simp add: first_grant_def two_proxies_def)
  have h4: "map index (grants busy_history (snd (snd (acquire [] 0 (two_proxies 5))))) = [1, 1]"
    by (simp add: busy_history_def pm_defs)
  from locked_until_release[OF h1 h2] h1 h2 h3 h4 show ?thesis by blast
qed

subsection \<open>C9: the constructor and an empty port list\<close>

text \<open>
  Claim C9, as amended. The ProxyManager constructor validates nothing and never fails: for
  every list of configurations and every capacity it returns a pool with that capacity, the
  given port lists, all usage counts 0, all cursors 0, no locked index, and as active port
  of each proxy the first of its ports, or \<open>undefined\<close> when it has none.
\<close>

theorem constructor_always_returns:
  "\<exists>pm. ProxyManager_new configs maxReq = Inr pm
        \<and> maxRequests pm = maxReq
        \<and> map ports (proxies pm) = map ports configs
        \<and> map current (proxies pm) = map (\<lambda>c. 0) configs
        \<and> map portIndex (proxies pm) = map (\<lambda>c. Some 0) configs
        \<and> map port (proxies pm) = map (\<lambda>c. case ports c of [] \<Rightarrow> None | p # _ \<Rightarrow> Some p) configs
        \<and> lockedIndexes pm = {}"
  by (auto simp: ProxyManager_new_def js_at_def split: list.splits)

text \<open>
  Counterexample to C9 as stated: a configuration with an empty port list is accepted; the
  constructor returns a pool whose proxy has an undefined active port.
\<close>

theorem empty_ports_accepted_counterexample:
  "ProxyManager_new [portless_config] 1 \<noteq> Inl InvalidResourceConfig
   \<and> ProxyManager_new [portless_config] 1
       = Inr \<lparr>proxies = [\<lparr>host = ''10.0.0.2'', ports = [], username = ''user'', password = ''pw'',
                           current = 0, portIndex = Some 0, port = None\<rparr>],
              maxRequests = 1, lockedIndexes = {}, failureCount = Map.empty,
              cooldownUntil = Map.empty\<rparr>"
  by (simp add: ProxyManager_new_def portless_config_def js_at_def)

subsection \<open>C10: a request on a key that was never registered\<close>

text \<open>
  Claim C10 says that \<open>request\<close> on a key that was never registered fails with the
  not-registered error. \<open>limits\<close> is a plain object, so the read \<open>this.limits[apiKey]\<close> finds
  the members that every object inherits: for the key \<open>toString\<close>, never registered, it
  yields a function, the test \<open>!limit\<close> is false, and the promise is rejected by the
  \<open>TypeError\<close> of \<open>limit.queue.push\<close> instead. (For a key that is not such a name the error
  is the not-registered one: \<open>request_unknown_key\<close>.)
\<close>

theorem inherited_key_is_not_reported_unregistered:
  "limits RequestManager_new ''toString'' = None
   \<and> request ''toString'' 1 0 RequestManager_new = Inl TypeError
   \<and> request ''toString'' 1 0 RequestManager_new \<noteq> Inl (Error_no_registrada ''toString'')"
  by (simp add: rm_defs)

end
